theory Spec2Isabelle
  imports Complex_Main "HOL-Library.Multiset"
begin

section \<open>JavaScript strings\<close>

text \<open>
  A JavaScript string is a sequence of UTF-16 code units; \<open>s.length\<close>, \<open>match.index\<close>
  and \<open>substring\<close> all count code units. A code unit is modelled by its number, so
  that the code points the sources name (U+2019, U+2013, ...) can be written down.
  \<open>str\<close> turns an ASCII literal into such a string.
\<close>

type_synonym jschar = nat
type_synonym jsstring = "jschar list"

definition str :: "string \<Rightarrow> jsstring" where
  "str s = map of_char s"

text \<open>
  \<open>String.prototype.trim\<close> removes WhiteSpace and LineTerminator code points from both
  ends: TAB, LF, VT, FF, CR, SP, NBSP, U+1680, U+2000..U+200A, U+2028, U+2029, U+202F,
  U+205F, U+3000 and U+FEFF.
\<close>

definition isWhiteSpace :: "jschar \<Rightarrow> bool" where
  "isWhiteSpace c \<longleftrightarrow>
     (9 \<le> c \<and> c \<le> 13) \<or> c = 32 \<or> c = 160 \<or> c = 5760 \<or> (8192 \<le> c \<and> c \<le> 8202)
     \<or> c = 8232 \<or> c = 8233 \<or> c = 8239 \<or> c = 8287 \<or> c = 12288 \<or> c = 65279"

definition trim :: "jsstring \<Rightarrow> jsstring" where
  "trim s = rev (dropWhile isWhiteSpace (rev (dropWhile isWhiteSpace s)))"

text \<open>
  \<open>String.prototype.toLowerCase\<close> is a builtin of the runtime, not code of the
  repository. It is modelled on the Basic Latin and Latin-1 Supplement blocks, where it
  maps one code unit to one code unit: A..Z and U+00C0..U+00DE (without the
  multiplication sign U+00D7) move up by 32. Every other code unit is left as it is, so
  the results below speak for texts written in these two blocks together with the
  punctuation that \<open>normalizeText\<close> names. The words the tokenizer finds are made
  of \<open>[A-Za-z0-9_'-]\<close> only, where the model is exact.
\<close>

definition lowerChar :: "jschar \<Rightarrow> jschar" where
  "lowerChar c =
     (if (65 \<le> c \<and> c \<le> 90) \<or> (192 \<le> c \<and> c \<le> 222 \<and> c \<noteq> 215) then c + 32 else c)"

definition toLowerCase :: "jsstring \<Rightarrow> jsstring" where
  "toLowerCase s = map lowerChar s"

text \<open>\<open>s.split('\n')\<close> and \<open>lines.join('\n')\<close>; the separator is one code unit.\<close>

fun splitOn :: "jschar \<Rightarrow> jsstring \<Rightarrow> jsstring list" where
  "splitOn sep [] = [[]]"
| "splitOn sep (c # cs) =
     (if c = sep then [] # splitOn sep cs
      else (let r = splitOn sep cs in (c # hd r) # tl r))"

fun joinWith :: "jschar \<Rightarrow> jsstring list \<Rightarrow> jsstring" where
  "joinWith sep [] = []"
| "joinWith sep [l] = l"
| "joinWith sep (l # m # ls) = l @ sep # joinWith sep (m # ls)"

text \<open>The decimal digits of a number, as a template literal \<open>`${n}`\<close> prints them.\<close>

fun decimal :: "nat \<Rightarrow> jsstring" where
  "decimal n = (if n < 10 then [48 + n] else decimal (n div 10) @ [48 + n mod 10])"

declare decimal.simps [simp del]

section \<open>Answer normalisation (utils/textNormalize)\<close>

text \<open>
  \<open>normalizeText(text)\<close>: the argument is \<open>None\<close> for a missing answer
  (\<open>undefined\<close>). \<open>if (!text) return ''\<close> catches it and the empty string; a string
  goes through \<open>trim\<close>, \<open>toLowerCase\<close> and the two \<open>replace\<close> calls, whose
  regular expressions are character classes with the \<open>g\<close> flag: every code unit of the
  class is replaced.
\<close>

definition replaceApostrophes :: "jsstring \<Rightarrow> jsstring" where
  "replaceApostrophes s = map (\<lambda>c. if c = 8217 \<or> c = 700 \<or> c = 180 then 39 else c) s"

definition replaceDashes :: "jsstring \<Rightarrow> jsstring" where
  "replaceDashes s = map (\<lambda>c. if c = 8211 \<or> c = 8212 \<or> c = 8722 then 45 else c) s"

definition normalizeText :: "jsstring option \<Rightarrow> jsstring" where
  "normalizeText text =
     (case text of
        None \<Rightarrow> []
      | Some t \<Rightarrow>
          if t = [] then []
          else replaceDashes (replaceApostrophes (toLowerCase (trim t))))"

definition compareAnswers :: "jsstring option \<Rightarrow> jsstring option \<Rightarrow> bool" where
  "compareAnswers userAnswer correctAnswer \<longleftrightarrow>
     normalizeText userAnswer = normalizeText correctAnswer"

section \<open>The tokenizer (extractWords)\<close>

text \<open>
  The regular expression \<open>/\b[\w'-]+\b/g\<close>, as the engine runs it. \<open>\w\<close> is
  \<open>[A-Za-z0-9_]\<close>; \<open>\b\<close> holds at a position when exactly one of the code units
  before and after it is a \<open>\w\<close> (the ends of the string count as not \<open>\w\<close>).
\<close>

definition isWordChar :: "jschar \<Rightarrow> bool" where
  "isWordChar c \<longleftrightarrow>
     (48 \<le> c \<and> c \<le> 57) \<or> (65 \<le> c \<and> c \<le> 90) \<or> c = 95 \<or> (97 \<le> c \<and> c \<le> 122)"

definition inWordClass :: "jschar \<Rightarrow> bool" where
  "inWordClass c \<longleftrightarrow> isWordChar c \<or> c = 39 \<or> c = 45"

definition wordBoundary :: "jsstring \<Rightarrow> nat \<Rightarrow> bool" where
  "wordBoundary s p \<longleftrightarrow>
     (0 < p \<and> p \<le> length s \<and> isWordChar (s ! (p - 1)))
       \<noteq> (p < length s \<and> isWordChar (s ! p))"

text \<open>
  \<open>[\w'-]+\<close> is greedy: it first takes the whole run of class characters, and gives
  characters back one at a time until the closing \<open>\b\<close> holds; at least one character
  stays. \<open>backtrack s i n\<close> is the length the match ends with, starting from \<open>n\<close>.
\<close>

fun backtrack :: "jsstring \<Rightarrow> nat \<Rightarrow> nat \<Rightarrow> nat option" where
  "backtrack s i 0 = None"
| "backtrack s i (Suc n) =
     (if wordBoundary s (i + Suc n) then Some (Suc n) else backtrack s i n)"

definition matchAt :: "jsstring \<Rightarrow> nat \<Rightarrow> nat option" where
  "matchAt s i =
     (if wordBoundary s i
      then backtrack s i (length (takeWhile inWordClass (drop i s)))
      else None)"

text \<open>
  \<open>matchAll\<close> with the \<open>g\<close> flag: try each start position from \<open>lastIndex\<close> on, and
  after a match go on from its end (one further after an empty match, which this
  pattern never has). A match is the pair of \<open>match.index\<close> and \<open>match[0]\<close>.
\<close>

function matchAllFrom :: "jsstring \<Rightarrow> nat \<Rightarrow> (nat \<times> jsstring) list" where
  "matchAllFrom s i =
     (if length s < i then []
      else (case matchAt s i of
              Some n \<Rightarrow> (i, take n (drop i s)) # matchAllFrom s (i + max 1 n)
            | None \<Rightarrow> matchAllFrom s (i + 1)))"
  by pat_completeness auto
termination
  by (relation "measure (\<lambda>(s, i). length s + 1 - i)") auto

declare matchAllFrom.simps [simp del]

definition matchAll :: "jsstring \<Rightarrow> (nat \<times> jsstring) list" where
  "matchAll s = matchAllFrom s 0"

text \<open>
  \<open>line.match(/^\[.*\]$/)\<close>: the line starts with \<open>[\<close> and ends with \<open>]\<close>, and
  \<open>.\<close> matches every code unit that is not a line terminator (LF, CR, U+2028,
  U+2029).
\<close>

definition isLineTerminator :: "jschar \<Rightarrow> bool" where
  "isLineTerminator c \<longleftrightarrow> c = 10 \<or> c = 13 \<or> c = 8232 \<or> c = 8233"

definition isSectionMarker :: "jsstring \<Rightarrow> bool" where
  "isSectionMarker line \<longleftrightarrow>
     2 \<le> length line \<and> hd line = 91 \<and> last line = 93
     \<and> list_all (\<lambda>c. \<not> isLineTerminator c) (butlast (tl line))"

text \<open>
  The objects that \<open>words.push\<close> creates; \<open>length_tok\<close> is the field \<open>length\<close>.
\<close>

record token =
  word :: jsstring
  lineIndex :: nat
  position :: nat
  length_tok :: nat

definition commonWords :: "jsstring list" where
  "commonWords = map str [''the'', ''and'', ''but'', ''for'', ''with'', ''from'', ''that'',
     ''this'', ''have'', ''has'', ''was'', ''were'']"

text \<open>The body of \<open>wordMatches.forEach\<close>: what one match adds to \<open>words\<close>.\<close>

definition wordOfMatch :: "nat \<Rightarrow> nat \<times> jsstring \<Rightarrow> token list" where
  "wordOfMatch li m =
     (let w = snd m; p = fst m in
      if length w \<le> 2 then []
      else if toLowerCase w \<in> set commonWords then []
      else [\<lparr>word = w, lineIndex = li, position = p, length_tok = length w\<rparr>])"

text \<open>
  The body of \<open>lines.forEach\<close>: what one line adds to \<open>words\<close>. The guard
  \<open>!line.trim() || line.match(/^\[.*\]$/)\<close> is \<open>skipLine\<close>.
\<close>

definition skipLine :: "jsstring \<Rightarrow> bool" where
  "skipLine line \<longleftrightarrow> trim line = [] \<or> isSectionMarker line"

definition wordsOfLine :: "nat \<times> jsstring \<Rightarrow> token list" where
  "wordsOfLine il =
     (let li = fst il; line = snd il in
      if skipLine line then []
      else concat (map (wordOfMatch li) (matchAll line)))"

definition extractWords :: "jsstring \<Rightarrow> token list" where
  "extractWords lyrics = concat (map wordsOfLine (enumerate 0 (splitOn 10 lyrics)))"

section \<open>The selector (selectBlanks)\<close>

text \<open>
  \<open>Array.prototype.sort\<close> with a comparator is stable: an element goes before the
  first element it does not compare greater than. \<open>jsSort cmp xs\<close> sorts a copy.
\<close>

fun insertBy :: "('a \<Rightarrow> 'a \<Rightarrow> int) \<Rightarrow> 'a \<Rightarrow> 'a list \<Rightarrow> 'a list" where
  "insertBy cmp x [] = [x]"
| "insertBy cmp x (y # ys) =
     (if cmp x y \<le> 0 then x # y # ys else y # insertBy cmp x ys)"

definition jsSort :: "('a \<Rightarrow> 'a \<Rightarrow> int) \<Rightarrow> 'a list \<Rightarrow> 'a list" where
  "jsSort cmp xs = foldr (insertBy cmp) xs []"

text \<open>
  \<open>Math.random\<close> is global state: the source is the sequence of values still to be
  returned, each in [0, 1), and a call takes the first. The comparator
  \<open>() => Math.random() - 0.5\<close> ignores its arguments, so the order it leaves is the
  engine's choice; the model runs the same insertion sort, threading the source.
\<close>

type_synonym random_source = "nat \<Rightarrow> real"

definition mathRandom :: "random_source \<Rightarrow> real \<times> random_source" where
  "mathRandom r = (r 0, \<lambda>n. r (Suc n))"

fun insertRandom :: "'a \<Rightarrow> 'a list \<Rightarrow> random_source \<Rightarrow> 'a list \<times> random_source" where
  "insertRandom x [] r = ([x], r)"
| "insertRandom x (y # ys) r =
     (case mathRandom r of (v, r') \<Rightarrow>
        if v - 1 / 2 \<le> 0 then (x # y # ys, r')
        else (case insertRandom x ys r' of (zs, r'') \<Rightarrow> (y # zs, r'')))"

fun sortRandom :: "'a list \<Rightarrow> random_source \<Rightarrow> 'a list \<times> random_source" where
  "sortRandom [] r = ([], r)"
| "sortRandom (x # xs) r =
     (case sortRandom xs r of (ys, r') \<Rightarrow> insertRandom x ys r')"

text \<open>
  \<open>xs.slice(0, cnt)\<close> for an integer \<open>cnt\<close>: a negative end counts from the end
  of the array, and both ends are clamped to the array.
\<close>

definition slice0 :: "'a list \<Rightarrow> int \<Rightarrow> 'a list" where
  "slice0 xs cnt =
     (if cnt < 0 then take (nat (int (length xs) + cnt)) xs else take (nat cnt) xs)"

text \<open>
  The frequency table of the \<open>frequent\<close> strategy is a plain object. Its keys are
  lower-cased words; \<open>constructor\<close> and \<open>__proto__\<close> are the two such keys that
  every object inherits, their entries never become numbers, and a comparison that reads
  one of them yields NaN, which \<open>sort\<close> takes for 0.
\<close>

definition countWord :: "token \<Rightarrow> (jsstring \<rightharpoonup> nat) \<Rightarrow> (jsstring \<rightharpoonup> nat)" where
  "countWord w frequency =
     (let lower = toLowerCase (word w) in
      frequency(lower \<mapsto> (case frequency lower of None \<Rightarrow> 0 | Some n \<Rightarrow> n) + 1))"

definition inheritedKey :: "jsstring \<Rightarrow> bool" where
  "inheritedKey k \<longleftrightarrow> k = str ''constructor'' \<or> k = str ''__proto__''"

definition frequencyOf :: "(jsstring \<rightharpoonup> nat) \<Rightarrow> token \<Rightarrow> int option" where
  "frequencyOf frequency w =
     (let lower = toLowerCase (word w) in
      if inheritedKey lower then None else map_option int (frequency lower))"

definition byFrequency :: "(jsstring \<rightharpoonup> nat) \<Rightarrow> token \<Rightarrow> token \<Rightarrow> int" where
  "byFrequency frequency a b =
     (case (frequencyOf frequency b, frequencyOf frequency a) of
        (Some fb, Some fa) \<Rightarrow> fb - fa
      | _ \<Rightarrow> 0)"

definition byLength :: "token \<Rightarrow> token \<Rightarrow> int" where
  "byLength a b = int (length_tok b) - int (length_tok a)"

definition byLinePosition :: "token \<Rightarrow> token \<Rightarrow> int" where
  "byLinePosition a b =
     (if lineIndex a \<noteq> lineIndex b then int (lineIndex a) - int (lineIndex b)
      else int (position a) - int (position b))"

text \<open>
  \<open>selectBlanks(words, count, strategy)\<close>, with the random source as a further
  argument (\<open>cnt\<close> is the source's \<open>count\<close>). The \<open>switch\<close> compares the
  strategy string with the three names; any other value takes the \<open>default\<close> branch,
  which is the \<open>random\<close> one.
\<close>

definition selectBlanks ::
  "random_source \<Rightarrow> token list \<Rightarrow> int \<Rightarrow> jsstring \<Rightarrow> token list" where
  "selectBlanks rnd words cnt strategy =
     (if length words = 0 then []
      else
        (let selectedWords =
           (if strategy = str ''important'' then slice0 (jsSort byLength words) cnt
            else if strategy = str ''frequent'' then
              (let frequency = fold countWord words Map.empty in
               slice0 (jsSort (byFrequency frequency) words) cnt)
            else slice0 (fst (sortRandom words rnd)) cnt)
         in jsSort byLinePosition selectedWords))"

section \<open>The encoder (generateQuizLyrics)\<close>

text \<open>A blank is a token copied with its \<open>blankId\<close>: \<open>{ ...blank, blankId: index }\<close>.\<close>

record blank = token +
  blankId :: nat

definition withBlankId :: "token \<Rightarrow> nat \<Rightarrow> blank" where
  "withBlankId t i =
     \<lparr>word = word t, lineIndex = lineIndex t, position = position t,
      length_tok = length_tok t, blankId = i\<rparr>"

text \<open>The body of \<open>blanks.forEach\<close>: push the blank onto its line's array.\<close>

definition pushBlank :: "token \<times> nat \<Rightarrow> (nat \<rightharpoonup> blank list) \<Rightarrow> (nat \<rightharpoonup> blank list)" where
  "pushBlank bi blanksMap =
     (let b = fst bi; index = snd bi;
          old = (case blanksMap (lineIndex b) of None \<Rightarrow> [] | Some bs \<Rightarrow> bs)
      in blanksMap(lineIndex b \<mapsto> old @ [withBlankId b index]))"

definition groupByLine :: "token list \<Rightarrow> (nat \<rightharpoonup> blank list)" where
  "groupByLine blanks = fold pushBlank (zip blanks [0..<length blanks]) Map.empty"

definition placeholder :: "nat \<Rightarrow> jsstring" where
  "placeholder i = str ''_____'' @ decimal i @ str ''_____''"

text \<open>
  The body of \<open>lineBlanks.forEach\<close>. \<open>substring\<close> clamps its arguments to the
  string, as \<open>take\<close> and \<open>drop\<close> do.
\<close>

definition replaceBlank :: "blank \<Rightarrow> jsstring \<Rightarrow> jsstring" where
  "replaceBlank b modifiedLine =
     (let before = take (position b) modifiedLine;
          after = drop (position b + length (word b)) modifiedLine
      in before @ placeholder (blankId b) @ after)"

definition byPositionDesc :: "blank \<Rightarrow> blank \<Rightarrow> int" where
  "byPositionDesc a b = int (position b) - int (position a)"

definition quizLine :: "(nat \<rightharpoonup> blank list) \<Rightarrow> nat \<times> jsstring \<Rightarrow> jsstring" where
  "quizLine blanksMap il =
     (let li = fst il; line = snd il in
      case blanksMap li of
        None \<Rightarrow> line
      | Some bs \<Rightarrow> fold replaceBlank (jsSort byPositionDesc bs) line)"

definition quizLines :: "jsstring \<Rightarrow> token list \<Rightarrow> jsstring list" where
  "quizLines lyrics blanks =
     map (quizLine (groupByLine blanks)) (enumerate 0 (splitOn 10 lyrics))"

definition generateQuizLyrics :: "jsstring \<Rightarrow> token list \<Rightarrow> jsstring" where
  "generateQuizLyrics lyrics blanks = joinWith 10 (quizLines lyrics blanks)"

section \<open>Reading the placeholders back (QuizView)\<close>

text \<open>
  The placeholders of a line, as \<open>renderLyrics\<close> of QuizView finds them:
  the loop over \<open>/_____(\d+)_____/g\<close> with \<open>parseInt(match[1])\<close>. The digits are
  taken greedily; giving one back would leave a digit where an underscore is required,
  so only the whole run can match.
\<close>

definition isDigit :: "jschar \<Rightarrow> bool" where
  "isDigit c \<longleftrightarrow> 48 \<le> c \<and> c \<le> 57"

definition parseInt :: "jsstring \<Rightarrow> nat" where
  "parseInt ds = foldl (\<lambda>a d. 10 * a + (d - 48)) 0 ds"

definition blankAt :: "jsstring \<Rightarrow> nat \<Rightarrow> (nat \<times> nat) option" where
  "blankAt s i =
     (let ds = takeWhile isDigit (drop (i + 5) s) in
      if take 5 (drop i s) = str ''_____'' \<and> ds \<noteq> []
         \<and> take 5 (drop (i + 5 + length ds) s) = str ''_____''
      then Some (10 + length ds, parseInt ds)
      else None)"

function blankIdsFrom :: "jsstring \<Rightarrow> nat \<Rightarrow> nat list" where
  "blankIdsFrom s i =
     (if length s < i then []
      else (case blankAt s i of
              Some m \<Rightarrow> snd m # blankIdsFrom s (i + max 1 (fst m))
            | None \<Rightarrow> blankIdsFrom s (i + 1)))"
  by pat_completeness auto
termination
  by (relation "measure (\<lambda>(s, i). length s + 1 - i)") auto

declare blankIdsFrom.simps [simp del]

definition blankIds :: "jsstring \<Rightarrow> nat list" where
  "blankIds lyrics = concat (map (\<lambda>line. blankIdsFrom line 0) (splitOn 10 lyrics))"

section \<open>Calls with arguments of any type\<close>

text \<open>
  The functions are untyped. \<open>extractWords\<close> and \<open>generateQuizLyrics\<close> begin with
  \<open>lyrics.split('\n')\<close>: for \<open>undefined\<close> and \<open>null\<close> reading the property throws
  a TypeError, and for a boolean or a number \<open>split\<close> is \<open>undefined\<close> and calling it
  throws a TypeError. Nothing else in the three functions throws, and none of them checks
  its arguments; \<open>selectBlanks\<close> hands \<open>count\<close> to \<open>slice\<close> as it is.
\<close>

datatype jsvalue = JSUndefined | JSNull | JSBoolean bool | JSNumber real | JSString jsstring







section \<open>The specification's notions\<close>

text \<open>
  The specification's wording of the same function, for comparison: trim, lower-case,
  then send each of the six listed code points to its ASCII form in one pass.
\<close>

definition canonPunct :: "jschar \<Rightarrow> jschar" where
  "canonPunct c =
     (if c \<in> {8217, 700, 180} then 39 else if c \<in> {8211, 8212, 8722} then 45 else c)"

definition normalize_spec :: "jsstring \<Rightarrow> jsstring" where
  "normalize_spec s = map canonPunct (toLowerCase (trim s))"



text \<open>What normalisation does to one code unit.\<close>

definition canon :: "jschar \<Rightarrow> jschar" where
  "canon c = canonPunct (lowerChar c)"

text \<open>
  Position order of tokens, as the specification words it: by line, and within a line by
  offset.
\<close>

definition linePositionLe :: "token \<Rightarrow> token \<Rightarrow> bool" where
  "linePositionLe a b \<longleftrightarrow>
     lineIndex a < lineIndex b \<or> (lineIndex a = lineIndex b \<and> position a \<le> position b)"

definition sortedByLinePosition :: "token list \<Rightarrow> bool" where
  "sortedByLinePosition ts = sorted_wrt linePositionLe ts"

text \<open>Text order of tokens: strictly earlier line, or same line and strictly earlier offset.\<close>

definition linePositionLt :: "token \<Rightarrow> token \<Rightarrow> bool" where
  "linePositionLt a b \<longleftrightarrow>
     lineIndex a < lineIndex b \<or> (lineIndex a = lineIndex b \<and> position a < position b)"

text \<open>
  The blanks of one line with their ids. The id of a blank is its index in the list the
  encoder receives (\<open>blanks.forEach((blank, index) => ...)\<close>).
\<close>

definition annotate :: "token list \<Rightarrow> blank list" where
  "annotate blanks =
     map (\<lambda>bi. withBlankId (fst bi) (snd bi)) (zip blanks [0..<length blanks])"

definition blanksOfLine :: "token list \<Rightarrow> nat \<Rightarrow> blank list" where
  "blanksOfLine blanks i = filter (\<lambda>b. lineIndex b = i) (annotate blanks)"

text \<open>
  Two spans are apart when one ends before the other starts. A blank list is
  non-overlapping when any two of its blanks on the same line are apart, and its spans
  lie inside their lines when every blank names a line of the text and ends within it.
\<close>

definition apart :: "blank \<Rightarrow> blank \<Rightarrow> bool" where
  "apart a b \<longleftrightarrow>
     position a + length (word a) \<le> position b \<or> position b + length (word b) \<le> position a"

definition nonOverlapping :: "token list \<Rightarrow> bool" where
  "nonOverlapping blanks =
     sorted_wrt (\<lambda>a b. lineIndex a = lineIndex b \<longrightarrow>
        position a + length (word a) \<le> position b
        \<or> position b + length (word b) \<le> position a) blanks"

definition spansInside :: "jsstring list \<Rightarrow> token list \<Rightarrow> bool" where
  "spansInside lines blanks =
     list_all (\<lambda>b. lineIndex b < length lines
        \<and> position b + length (word b) \<le> length (lines ! lineIndex b)) blanks"

section \<open>Example data\<close>

text \<open>A token written out for the examples: word, line, offset.\<close>

definition tok :: "string \<Rightarrow> nat \<Rightarrow> nat \<Rightarrow> token" where
  "tok w li p = \<lparr>word = str w, lineIndex = li, position = p, length_tok = length w\<rparr>"

text \<open>The lyrics of the end-to-end scenario, and two random sources.\<close>

definition amazingGrace :: jsstring where
  "amazingGrace = str ''Amazing grace how sweet the sound'' @ [10]"

definition fixedSource :: random_source where
  "fixedSource n = 0"

definition alternatingSource :: random_source where
  "alternatingSource n = (if even n then 0 else 3 / 4)"

section \<open>Properties of normalisation\<close>

lemma normalizeText_Some: "normalizeText (Some t) = map canon (trim t)"
  by (auto simp: normalizeText_def replaceDashes_def replaceApostrophes_def
      toLowerCase_def trim_def canon_def canonPunct_def)




lemmas normalize_eval =
  compareAnswers_def normalizeText_def replaceDashes_def replaceApostrophes_def
  toLowerCase_def trim_def lowerChar_def isWhiteSpace_def str_def

text \<open>
  C6. \<open>normalizeText\<close> sends a missing answer and the empty string to the empty
  string, and on every string it is the specification's pipeline: trim, lower-case, map
  U+2019, U+02BC, U+00B4 to the apostrophe and U+2013, U+2014, U+2212 to the hyphen.
  \<open>compareAnswers\<close> is equality of the two normalised strings; it accepts
  don't / don(U+2019)t, say-so / say(U+2013)so and Hello / hello, and rejects cat / cats.
\<close>

theorem normalizeText_meets_spec:
  "normalizeText None = []
   \<and> normalizeText (Some []) = []
   \<and> normalizeText (Some s) = normalize_spec s
   \<and> (compareAnswers a b \<longleftrightarrow> normalizeText a = normalizeText b)
   \<and> compareAnswers (Some (str ''don'' @ [39] @ str ''t''))
                     (Some (str ''don'' @ [8217] @ str ''t''))
   \<and> compareAnswers (Some (str ''say-so'')) (Some (str ''say'' @ [8211] @ str ''so''))
   \<and> compareAnswers (Some (str ''Hello'')) (Some (str ''hello''))
   \<and> \<not> compareAnswers (Some (str ''cat'')) (Some (str ''cats''))"
proof -
  have "normalizeText (Some s) = normalize_spec s"
    by (simp add: normalizeText_Some normalize_spec_def canon_def toLowerCase_def)
  moreover have "normalizeText None = []" "normalizeText (Some []) = []"
    by (simp_all add: normalizeText_def)
  moreover have "compareAnswers a b \<longleftrightarrow> normalizeText a = normalizeText b"
    by (simp add: compareAnswers_def)
  moreover have "compareAnswers (Some (str ''don'' @ [39] @ str ''t''))
                     (Some (str ''don'' @ [8217] @ str ''t''))"
    by (simp add: normalize_eval)
  moreover have
    "compareAnswers (Some (str ''say-so'')) (Some (str ''say'' @ [8211] @ str ''so''))"
    by (simp add: normalize_eval)
  moreover have "compareAnswers (Some (str ''Hello'')) (Some (str ''hello''))"
    by (simp add: normalize_eval)
  moreover have "\<not> compareAnswers (Some (str ''cat'')) (Some (str ''cats''))"
    by (simp add: normalize_eval)
  ultimately show ?thesis by blast
qed

theorem normalizeText_meets_spec_witness:
  "normalizeText (Some (str ''  Don'' @ [180] @ str ''t STOP'' @ [8212] @ str ''Now ''))
     = str ''don'' @ [39] @ str ''t stop-now''"
  using normalizeText_meets_spec
    [of "str ''  Don'' @ [180] @ str ''t STOP'' @ [8212] @ str ''Now ''" None None]
  by (simp add: normalize_spec_def canonPunct_def toLowerCase_def trim_def lowerChar_def
      isWhiteSpace_def str_def)












section \<open>Properties of sorting\<close>

lemma length_insertBy: "length (insertBy cmp x ys) = Suc (length ys)"
  by (induction ys) auto

lemma length_jsSort: "length (jsSort cmp xs) = length xs"
  by (induction xs) (auto simp: jsSort_def length_insertBy)

lemma set_insertBy: "set (insertBy cmp x ys) = insert x (set ys)"
  by (induction ys) auto

lemma mset_insertBy: "mset (insertBy cmp x ys) = add_mset x (mset ys)"
  by (induction ys) auto

lemma mset_jsSort: "mset (jsSort cmp xs) = mset xs"
  by (induction xs) (auto simp: jsSort_def mset_insertBy)

lemma length_insertRandom:
  "insertRandom x ys r = (zs, r') \<Longrightarrow> length zs = Suc (length ys)"
  by (induction ys arbitrary: r zs r') (auto split: prod.splits if_splits)

lemma length_sortRandom: "sortRandom xs r = (ys, r') \<Longrightarrow> length ys = length xs"
  by (induction xs arbitrary: r ys r') (auto split: prod.splits dest: length_insertRandom)

lemma length_fst_sortRandom: "length (fst (sortRandom xs r)) = length xs"
  by (cases "sortRandom xs r") (auto dest: length_sortRandom)

lemma length_slice0: "0 \<le> cnt \<Longrightarrow> length (slice0 xs cnt) = min (nat cnt) (length xs)"
  by (simp add: slice0_def min_def)

text \<open>
  Insertion keeps a list sorted for a relation \<open>R\<close> that the comparator decides: a
  result of at most 0 gives \<open>R a b\<close>, a positive one gives \<open>R b a\<close>.
\<close>

lemma sorted_wrt_insertBy:
  assumes tot: "\<And>a b. \<not> cmp a b \<le> 0 \<Longrightarrow> R b a"
    and le: "\<And>a b. cmp a b \<le> 0 \<Longrightarrow> R a b"
    and tr: "\<And>a b c. R a b \<Longrightarrow> R b c \<Longrightarrow> R a c"
  shows "sorted_wrt R ys \<Longrightarrow> sorted_wrt R (insertBy cmp x ys)"
proof (induction ys)
  case Nil
  then show ?case by simp
next
  case (Cons y ys)
  show ?case
  proof (cases "cmp x y \<le> 0")
    case True
    then have "R x y" by (rule le)
    with Cons.prems tr have "\<forall>z\<in>set (y # ys). R x z" by auto
    with True Cons.prems show ?thesis by simp
  next
    case False
    then have "R y x" by (rule tot)
    with False Cons show ?thesis by (auto simp: set_insertBy)
  qed
qed

lemma sorted_wrt_jsSort:
  assumes tot: "\<And>a b. \<not> cmp a b \<le> 0 \<Longrightarrow> R b a"
    and le: "\<And>a b. cmp a b \<le> 0 \<Longrightarrow> R a b"
    and tr: "\<And>a b c. R a b \<Longrightarrow> R b c \<Longrightarrow> R a c"
  shows "sorted_wrt R (jsSort cmp xs)"
proof (induction xs)
  case Nil
  then show ?case by (simp add: jsSort_def)
next
  case (Cons x xs)
  have "sorted_wrt R (insertBy cmp x (jsSort cmp xs))"
    using tot le tr Cons.IH by (rule sorted_wrt_insertBy)
  then show ?case by (simp add: jsSort_def)
qed

lemma sorted_jsSort_byLinePosition: "sorted_wrt linePositionLe (jsSort byLinePosition xs)"
proof (rule sorted_wrt_jsSort)
  show "\<And>a b. \<not> byLinePosition a b \<le> 0 \<Longrightarrow> linePositionLe b a"
    by (auto simp: byLinePosition_def linePositionLe_def split: if_splits)
  show "\<And>a b. byLinePosition a b \<le> 0 \<Longrightarrow> linePositionLe a b"
    by (auto simp: byLinePosition_def linePositionLe_def split: if_splits)
  show "\<And>a b c. linePositionLe a b \<Longrightarrow> linePositionLe b c \<Longrightarrow> linePositionLe a c"
    by (auto simp: linePositionLe_def)
qed

lemmas selector_eval =
  selectBlanks_def tok_def str_def jsSort_def slice0_def byFrequency_def frequencyOf_def
  countWord_def inheritedKey_def toLowerCase_def lowerChar_def byLinePosition_def
  byLength_def mathRandom_def Let_def

section \<open>Properties of the selector\<close>

text \<open>
  C1. For every token list, every count that is not negative and every strategy string
  (\<open>random\<close>, \<open>important\<close>, \<open>frequent\<close> or anything else), \<open>selectBlanks\<close>
  returns exactly min(count, number of tokens) tokens; for the empty token list it
  returns the empty sequence whatever the count is.
\<close>

theorem selectBlanks_length:
  assumes "0 \<le> cnt"
  shows "length (selectBlanks rnd T cnt s) = min (nat cnt) (length T)
         \<and> selectBlanks rnd [] cnt' s = []"
  using assms
  by (simp add: selectBlanks_def Let_def length_jsSort length_slice0 length_fst_sortRandom)

theorem selectBlanks_length_witness:
  "length (selectBlanks (\<lambda>n. 0) [tok ''love'' 0 0, tok ''you'' 0 5, tok ''Love'' 1 2] 2
     (str ''frequent'')) = 2
   \<and> selectBlanks (\<lambda>n. 0) [tok ''love'' 0 0, tok ''you'' 0 5, tok ''Love'' 1 2] 2
     (str ''frequent'') = [tok ''love'' 0 0, tok ''Love'' 1 2]"
proof -
  have "(0::int) \<le> 2" by simp
  from selectBlanks_length [OF this, of "\<lambda>n. 0"
      "[tok ''love'' 0 0, tok ''you'' 0 5, tok ''Love'' 1 2]" "str ''frequent''" 0]
  have "length (selectBlanks (\<lambda>n. 0) [tok ''love'' 0 0, tok ''you'' 0 5, tok ''Love'' 1 2] 2
     (str ''frequent'')) = 2"
    by simp
  moreover have "selectBlanks (\<lambda>n. 0) [tok ''love'' 0 0, tok ''you'' 0 5, tok ''Love'' 1 2] 2
     (str ''frequent'') = [tok ''love'' 0 0, tok ''Love'' 1 2]"
    by (simp add: selector_eval)
  ultimately show ?thesis by simp
qed

text \<open>
  C2. Whatever the strategy, the count and the random source, the sequence that
  \<open>selectBlanks\<close> returns is sorted by line index and, within a line, by position.
\<close>

theorem selectBlanks_sorted: "sortedByLinePosition (selectBlanks rnd T cnt s)"
  by (simp add: selectBlanks_def Let_def sortedByLinePosition_def
      sorted_jsSort_byLinePosition)

theorem selectBlanks_sorted_witness:
  "sortedByLinePosition
     (selectBlanks (\<lambda>n. if even n then 0 else 3 / 4)
        [tok ''sound'' 1 9, tok ''grace'' 0 8, tok ''Amazing'' 0 0] 2 (str ''random''))
   \<and> selectBlanks (\<lambda>n. if even n then 0 else 3 / 4)
        [tok ''sound'' 1 9, tok ''grace'' 0 8, tok ''Amazing'' 0 0] 2 (str ''random'')
      = [tok ''grace'' 0 8, tok ''sound'' 1 9]"
proof -
  have "selectBlanks (\<lambda>n. if even n then 0 else 3 / 4)
        [tok ''sound'' 1 9, tok ''grace'' 0 8, tok ''Amazing'' 0 0] 2 (str ''random'')
      = [tok ''grace'' 0 8, tok ''sound'' 1 9]"
    by (simp add: selector_eval)
  with selectBlanks_sorted [of "\<lambda>n. if even n then 0 else 3 / 4"
      "[tok ''sound'' 1 9, tok ''grace'' 0 8, tok ''Amazing'' 0 0]" 2 "str ''random''"]
  show ?thesis by simp
qed

section \<open>Properties of the tokenizer\<close>

lemma backtrack_Some:
  "backtrack s i n = Some m \<Longrightarrow> 0 < m \<and> m \<le> n \<and> wordBoundary s (i + m)"
  by (induction n) (auto split: if_splits)

lemma take_takeWhile_run:
  "n \<le> length (takeWhile P xs) \<Longrightarrow> take n xs = take n (takeWhile P xs)"
proof -
  assume n: "n \<le> length (takeWhile P xs)"
  have "take n xs = take n (takeWhile P xs @ dropWhile P xs)" by simp
  also have "\<dots> = take n (takeWhile P xs)" using n by (simp del: takeWhile_dropWhile_id)
  finally show ?thesis .
qed

lemma matchAt_Some:
  assumes "matchAt s i = Some n"
  shows "0 < n" and "i + n \<le> length s" and "wordBoundary s i"
    and "wordBoundary s (i + n)" and "\<forall>c\<in>set (take n (drop i s)). inWordClass c"
proof -
  let ?run = "takeWhile inWordClass (drop i s)"
  from assms have b: "backtrack s i (length ?run) = Some n" and wb: "wordBoundary s i"
    by (auto simp: matchAt_def split: if_splits)
  from backtrack_Some [OF b]
  have n: "0 < n" "n \<le> length ?run" "wordBoundary s (i + n)" by auto
  have "length ?run \<le> length (drop i s)" by (rule length_takeWhile_le)
  with n show "i + n \<le> length s" by simp
  have "take n (drop i s) = take n ?run" using n(2) by (rule take_takeWhile_run)
  moreover have "\<forall>c\<in>set (take n ?run). inWordClass c"
    by (meson in_set_takeD set_takeWhileD)
  ultimately show "\<forall>c\<in>set (take n (drop i s)). inWordClass c" by simp
  show "0 < n" and "wordBoundary s i" and "wordBoundary s (i + n)" using n wb by auto
qed

lemma matchAllFrom_sound:
  "(p, w) \<in> set (matchAllFrom s i) \<Longrightarrow>
     i \<le> p \<and> (\<exists>n. matchAt s p = Some n \<and> w = take n (drop p s))"
proof (induction s i rule: matchAllFrom.induct)
  case (1 s i)
  show ?case
  proof (cases "length s < i")
    case True
    with "1.prems" show ?thesis by (simp add: matchAllFrom.simps)
  next
    case False
    show ?thesis
    proof (cases "matchAt s i")
      case None
      with False "1.prems" have "(p, w) \<in> set (matchAllFrom s (i + 1))"
        by (simp add: matchAllFrom.simps [of s i])
      with "1.IH"(1) [OF False None] show ?thesis by auto
    next
      case (Some n)
      with False "1.prems"
      have "(p, w) = (i, take n (drop i s)) \<or> (p, w) \<in> set (matchAllFrom s (i + max 1 n))"
        by (simp add: matchAllFrom.simps [of s i])
      then show ?thesis
      proof
        assume "(p, w) = (i, take n (drop i s))"
        with Some show ?thesis by auto
      next
        assume "(p, w) \<in> set (matchAllFrom s (i + max 1 n))"
        with "1.IH"(2) [OF False Some] show ?thesis by auto
      qed
    qed
  qed
qed

lemma matchAllFrom_increasing: "sorted_wrt (<) (map fst (matchAllFrom s i))"
proof (induction s i rule: matchAllFrom.induct)
  case (1 s i)
  show ?case
  proof (cases "length s < i")
    case True
    then show ?thesis by (simp add: matchAllFrom.simps)
  next
    case False
    show ?thesis
    proof (cases "matchAt s i")
      case None
      with False "1.IH"(1) [OF False None] show ?thesis
        by (simp add: matchAllFrom.simps [of s i])
    next
      case (Some n)
      have "\<forall>q\<in>set (map fst (matchAllFrom s (i + max 1 n))). i < q"
        using matchAllFrom_sound [of _ _ s "i + max 1 n"] by fastforce
      with False Some "1.IH"(2) [OF False Some] show ?thesis
        by (simp add: matchAllFrom.simps [of s i])
    qed
  qed
qed

lemma matchAll_word:
  assumes "(p, w) \<in> set (matchAll s)"
  shows "w = take (length w) (drop p s)" and "0 < length w"
proof -
  from assms matchAllFrom_sound [of p w s 0]
  obtain n where n: "matchAt s p = Some n" "w = take n (drop p s)"
    by (auto simp: matchAll_def)
  from matchAt_Some(1,2) [OF n(1)] n(2) have "length w = n" and "0 < n" by auto
  with n(2) show "w = take (length w) (drop p s)" and "0 < length w" by auto
qed

lemma wordOfMatch_iff:
  "t \<in> set (wordOfMatch i m) \<longleftrightarrow>
     2 < length (snd m) \<and> toLowerCase (snd m) \<notin> set commonWords
     \<and> t = \<lparr>word = snd m, lineIndex = i, position = fst m, length_tok = length (snd m)\<rparr>"
  by (auto simp: wordOfMatch_def Let_def)

lemma wordsOfLine_iff:
  "t \<in> set (wordsOfLine (i, line)) \<longleftrightarrow>
     \<not> skipLine line \<and> (\<exists>m\<in>set (matchAll line). t \<in> set (wordOfMatch i m))"
  by (auto simp: wordsOfLine_def Let_def)

lemma extractWords_iff:
  "t \<in> set (extractWords text) \<longleftrightarrow>
     (\<exists>i<length (splitOn 10 text). t \<in> set (wordsOfLine (i, splitOn 10 text ! i)))"
  by (auto simp: extractWords_def in_set_enumerate_eq)

lemma sorted_concat_wordOfMatch:
  "sorted_wrt (<) (map fst ms) \<Longrightarrow>
     sorted_wrt linePositionLt (concat (map (wordOfMatch i) ms))"
proof (induction ms)
  case Nil
  then show ?case by simp
next
  case (Cons m ms)
  have one: "sorted_wrt linePositionLt (wordOfMatch i m)"
    by (simp add: wordOfMatch_def Let_def)
  have "\<forall>a\<in>set (wordOfMatch i m). \<forall>b\<in>set (concat (map (wordOfMatch i) ms)). linePositionLt a b"
    using Cons.prems by (auto simp: wordOfMatch_iff linePositionLt_def)
  with one Cons show ?case by (simp add: sorted_wrt_append)
qed

lemma sorted_wordsOfLine: "sorted_wrt linePositionLt (wordsOfLine (i, line))"
  by (simp add: wordsOfLine_def Let_def sorted_concat_wordOfMatch matchAll_def
      matchAllFrom_increasing)

lemma lineIndex_wordsOfLine: "t \<in> set (wordsOfLine (i, line)) \<Longrightarrow> lineIndex t = i"
  by (auto simp: wordsOfLine_iff wordOfMatch_iff)

lemma sorted_concat_enumerate:
  "sorted_wrt linePositionLt (concat (map wordsOfLine (enumerate n ls)))"
proof (induction ls arbitrary: n)
  case Nil
  then show ?case by simp
next
  case (Cons l ls)
  have "\<forall>a\<in>set (wordsOfLine (n, l)).
          \<forall>b\<in>set (concat (map wordsOfLine (enumerate (Suc n) ls))). linePositionLt a b"
    by (fastforce simp: in_set_enumerate_eq linePositionLt_def dest: lineIndex_wordsOfLine)
  with Cons [of "Suc n"] show ?case
    by (simp add: sorted_wrt_append sorted_wordsOfLine)
qed

lemma sorted_extractWords: "sorted_wrt linePositionLt (extractWords text)"
  by (simp add: extractWords_def sorted_concat_enumerate)

lemma dropWhile_all_iff: "(\<forall>x\<in>set (dropWhile P s). P x) \<longleftrightarrow> (\<forall>x\<in>set s. P x)"
proof (cases "dropWhile P s = []")
  case True
  then have "\<forall>x\<in>set s. P x" by (simp add: dropWhile_eq_Nil_conv)
  moreover have "\<forall>x\<in>set (dropWhile P s). P x" unfolding True by simp
  ultimately show ?thesis by blast
next
  case False
  then have "\<not> P (hd (dropWhile P s))" by (rule hd_dropWhile)
  moreover have "hd (dropWhile P s) \<in> set (dropWhile P s)" using False by simp
  ultimately have "\<not> (\<forall>x\<in>set (dropWhile P s). P x)" by blast
  moreover have "\<not> (\<forall>x\<in>set s. P x)" using False by (simp add: dropWhile_eq_Nil_conv)
  ultimately show ?thesis by blast
qed

lemma trim_Nil_iff: "trim s = [] \<longleftrightarrow> (\<forall>c\<in>set s. isWhiteSpace c)"
  by (simp add: trim_def dropWhile_eq_Nil_conv dropWhile_all_iff)

lemma isSectionMarker_iff:
  "isSectionMarker line \<longleftrightarrow>
     (\<exists>body. line = 91 # body @ [93] \<and> (\<forall>c\<in>set body. \<not> isLineTerminator c))"
proof
  assume m: "isSectionMarker line"
  then obtain c cs where l: "line = c # cs" "cs \<noteq> []"
    by (cases line; cases "tl line") (auto simp: isSectionMarker_def)
  with m have "line = 91 # butlast cs @ [93]"
    by (auto simp: isSectionMarker_def) (metis append_butlast_last_id)
  moreover from m l have "\<forall>c\<in>set (butlast cs). \<not> isLineTerminator c"
    by (auto simp: isSectionMarker_def list_all_iff)
  ultimately show "\<exists>body. line = 91 # body @ [93] \<and> (\<forall>c\<in>set body. \<not> isLineTerminator c)"
    by blast
next
  assume "\<exists>body. line = 91 # body @ [93] \<and> (\<forall>c\<in>set body. \<not> isLineTerminator c)"
  then show "isSectionMarker line"
    by (auto simp: isSectionMarker_def list_all_iff)
qed

lemmas tokenizer_eval =
  extractWords_def wordsOfLine_def skipLine_def wordOfMatch_def matchAll_def
  matchAllFrom.simps matchAt_def wordBoundary_def isWordChar_def inWordClass_def
  isSectionMarker_def isLineTerminator_def commonWords_def trim_def isWhiteSpace_def
  toLowerCase_def lowerChar_def str_def tok_def enumerate_eq_zip Let_def

text \<open>
  C8. Every token that \<open>extractWords\<close> returns comes from a line of the split that
  is not skipped (not whitespace-only, not a bracketed marker) and carries that line's
  index in the whole split, so skipped lines still count; its word is longer than two
  characters, is not in the stoplist after lower-casing, and is the substring at its
  position. Conversely every candidate of a line that is not skipped and that passes both
  tests is returned. The tokens come in text order. The skipped lines are the
  whitespace-only ones and those of the form \<open>[\<close>...\<open>]\<close>; the stoplist is the twelve words
  the, and, but, for, with, from, that, this, have, has, was, were. For
  \<open>The cat sat on a mat.\<close> the words returned are cat, sat, mat.
\<close>

theorem extractWords_meets_spec:
  "(\<forall>t\<in>set (extractWords lyrics).
      lineIndex t < length (splitOn 10 lyrics)
      \<and> \<not> skipLine (splitOn 10 lyrics ! lineIndex t)
      \<and> 2 < length (word t)
      \<and> toLowerCase (word t) \<notin> set commonWords
      \<and> length_tok t = length (word t)
      \<and> word t = take (length_tok t) (drop (position t) (splitOn 10 lyrics ! lineIndex t)))
   \<and> (\<forall>i p w. i < length (splitOn 10 lyrics) \<and> \<not> skipLine (splitOn 10 lyrics ! i)
         \<and> (p, w) \<in> set (matchAll (splitOn 10 lyrics ! i))
         \<and> 2 < length w \<and> toLowerCase w \<notin> set commonWords
       \<longrightarrow> \<lparr>word = w, lineIndex = i, position = p, length_tok = length w\<rparr>
             \<in> set (extractWords lyrics))
   \<and> sorted_wrt linePositionLt (extractWords lyrics)
   \<and> (skipLine line \<longleftrightarrow>
         (\<forall>c\<in>set line. isWhiteSpace c)
         \<or> (\<exists>body. line = 91 # body @ [93] \<and> (\<forall>c\<in>set body. \<not> isLineTerminator c)))
   \<and> commonWords = map str [''the'', ''and'', ''but'', ''for'', ''with'', ''from'',
         ''that'', ''this'', ''have'', ''has'', ''was'', ''were'']
   \<and> map word (extractWords (str ''The cat sat on a mat.'' @ [10]))
       = [str ''cat'', str ''sat'', str ''mat'']"
proof -
  have sound: "\<forall>t\<in>set (extractWords lyrics).
      lineIndex t < length (splitOn 10 lyrics)
      \<and> \<not> skipLine (splitOn 10 lyrics ! lineIndex t)
      \<and> 2 < length (word t)
      \<and> toLowerCase (word t) \<notin> set commonWords
      \<and> length_tok t = length (word t)
      \<and> word t = take (length_tok t) (drop (position t) (splitOn 10 lyrics ! lineIndex t))"
  proof
    fix t
    assume "t \<in> set (extractWords lyrics)"
    then obtain i m where i: "i < length (splitOn 10 lyrics)"
      and sk: "\<not> skipLine (splitOn 10 lyrics ! i)"
      and m: "m \<in> set (matchAll (splitOn 10 lyrics ! i))"
      and t: "t \<in> set (wordOfMatch i m)"
      by (auto simp: extractWords_iff wordsOfLine_iff)
    from m matchAll_word(1) [of "fst m" "snd m" "splitOn 10 lyrics ! i"]
    have "snd m = take (length (snd m)) (drop (fst m) (splitOn 10 lyrics ! i))" by simp
    with i sk t show "lineIndex t < length (splitOn 10 lyrics)
      \<and> \<not> skipLine (splitOn 10 lyrics ! lineIndex t)
      \<and> 2 < length (word t)
      \<and> toLowerCase (word t) \<notin> set commonWords
      \<and> length_tok t = length (word t)
      \<and> word t = take (length_tok t) (drop (position t) (splitOn 10 lyrics ! lineIndex t))"
      by (simp add: wordOfMatch_iff)
  qed
  have complete: "\<forall>i p w. i < length (splitOn 10 lyrics) \<and> \<not> skipLine (splitOn 10 lyrics ! i)
         \<and> (p, w) \<in> set (matchAll (splitOn 10 lyrics ! i))
         \<and> 2 < length w \<and> toLowerCase w \<notin> set commonWords
       \<longrightarrow> \<lparr>word = w, lineIndex = i, position = p, length_tok = length w\<rparr>
             \<in> set (extractWords lyrics)"
  proof (intro allI impI)
    fix i p w
    assume a: "i < length (splitOn 10 lyrics) \<and> \<not> skipLine (splitOn 10 lyrics ! i)
         \<and> (p, w) \<in> set (matchAll (splitOn 10 lyrics ! i))
         \<and> 2 < length w \<and> toLowerCase w \<notin> set commonWords"
    let ?t = "\<lparr>word = w, lineIndex = i, position = p, length_tok = length w\<rparr>"
    from a have "?t \<in> set (wordOfMatch i (p, w))" by (simp add: wordOfMatch_iff)
    with a have "?t \<in> set (wordsOfLine (i, splitOn 10 lyrics ! i))"
      unfolding wordsOfLine_iff by blast
    with a show "?t \<in> set (extractWords lyrics)"
      unfolding extractWords_iff by blast
  qed
  have skip: "skipLine line \<longleftrightarrow>
         (\<forall>c\<in>set line. isWhiteSpace c)
         \<or> (\<exists>body. line = 91 # body @ [93] \<and> (\<forall>c\<in>set body. \<not> isLineTerminator c))"
    by (simp only: skipLine_def trim_Nil_iff isSectionMarker_iff)
  have ex: "map word (extractWords (str ''The cat sat on a mat.'' @ [10]))
       = [str ''cat'', str ''sat'', str ''mat'']"
    by (simp add: tokenizer_eval)
  from sound complete sorted_extractWords [of lyrics] skip ex show ?thesis
    by (simp only: commonWords_def simp_thms)
qed

theorem extractWords_meets_spec_witness:
  "extractWords (str ''[Chorus]'' @ [10] @ str ''Love is love'' @ [10])
     = [tok ''Love'' 1 0, tok ''love'' 1 8]
   \<and> skipLine (str ''[Chorus]'')
   \<and> sorted_wrt linePositionLt
       (extractWords (str ''[Chorus]'' @ [10] @ str ''Love is love'' @ [10]))"
proof -
  have "extractWords (str ''[Chorus]'' @ [10] @ str ''Love is love'' @ [10])
     = [tok ''Love'' 1 0, tok ''love'' 1 8]"
    by (simp add: tokenizer_eval)
  moreover have "skipLine (str ''[Chorus]'')"
    by (simp add: tokenizer_eval)
  ultimately show ?thesis
    using extractWords_meets_spec
      [of "str ''[Chorus]'' @ [10] @ str ''Love is love'' @ [10]" "str ''[Chorus]''"]
    by blast
qed

section \<open>The end-to-end scenario\<close>

text \<open>
  The comparator of the \<open>important\<close> strategy makes \<open>jsSort\<close> the library's stable
  sort on the key "negated length".
\<close>

lemma insertBy_byLength:
  "insertBy byLength x ys = insort_key (\<lambda>t. - int (length_tok t)) x ys"
  by (induction ys) (auto simp: byLength_def)

lemma jsSort_byLength: "jsSort byLength T = sort_key (\<lambda>t. - int (length_tok t)) T"
  by (induction T) (auto simp: jsSort_def insertBy_byLength)

lemma extractWords_amazingGrace:
  "extractWords amazingGrace =
     [tok ''Amazing'' 0 0, tok ''grace'' 0 8, tok ''how'' 0 14, tok ''sweet'' 0 18,
      tok ''sound'' 0 28]"
  by (simp add: tokenizer_eval amazingGrace_def)

lemma important_amazingGrace:
  "selectBlanks rnd (extractWords amazingGrace) 2 (str ''important'')
     = [tok ''Amazing'' 0 0, tok ''grace'' 0 8]"
  unfolding extractWords_amazingGrace by (simp add: selector_eval)

lemmas encoder_eval =
  generateQuizLyrics_def quizLines_def groupByLine_def pushBlank_def withBlankId_def quizLine_def
  replaceBlank_def placeholder_def byPositionDesc_def jsSort_def decimal.simps
  enumerate_eq_zip Let_def str_def tok_def upt_rec

lemma quiz_amazingGrace:
  "generateQuizLyrics amazingGrace [tok ''Amazing'' 0 0, tok ''grace'' 0 8]
     = str ''_____0_____ _____1_____ how sweet the sound'' @ [10]"
  by (simp add: encoder_eval amazingGrace_def)

lemma blankIds_amazingGrace:
  "blankIds (str ''_____0_____ _____1_____ how sweet the sound'' @ [10]) = [0, 1]"
  by (simp add: blankIds_def blankIdsFrom.simps blankAt_def isDigit_def parseInt_def
      str_def Let_def)

text \<open>
  C3, as stated, fails: for \<open>Amazing grace how sweet the sound\<close> with strategy
  \<open>important\<close> and count 2 the word \<open>sound\<close> is not selected. The three words of
  length 5 are tied, the sort is stable, and \<open>grace\<close> is the first of them.
\<close>

theorem important_scenario_counterexample:
  "str ''sound'' \<notin> set (map word
     (selectBlanks fixedSource (extractWords amazingGrace) 2 (str ''important'')))"
  unfolding important_amazingGrace by (simp add: tok_def str_def)

text \<open>
  C3, amended. With strategy \<open>important\<close> the tokens are sorted by length, longest
  first, ties keeping their original order, and the first \<open>count\<close> are taken. For
  \<open>Amazing grace how sweet the sound\<close> and count 2 the selection is \<open>Amazing\<close> and
  \<open>grace\<close>, and the quiz text is \<open>_____0_____ _____1_____ how sweet the sound\<close>: two
  placeholders, which read back as the ids 0 and 1 in line-position order.
\<close>

theorem important_scenario:
  "map word (selectBlanks rnd (extractWords amazingGrace) 2 (str ''important''))
     = [str ''Amazing'', str ''grace'']
   \<and> generateQuizLyrics amazingGrace
        (selectBlanks rnd (extractWords amazingGrace) 2 (str ''important''))
     = str ''_____0_____ _____1_____ how sweet the sound'' @ [10]
   \<and> blankIds (generateQuizLyrics amazingGrace
        (selectBlanks rnd (extractWords amazingGrace) 2 (str ''important''))) = [0, 1]
   \<and> selectBlanks rnd T cnt (str ''important'')
     = (if T = [] then [] else jsSort byLinePosition (slice0 (jsSort byLength T) cnt))
   \<and> sorted (map (\<lambda>t. - int (length_tok t)) (jsSort byLength T))
   \<and> filter (\<lambda>t. length_tok t = k) (jsSort byLength T) = filter (\<lambda>t. length_tok t = k) T"
proof -
  have "map word (selectBlanks rnd (extractWords amazingGrace) 2 (str ''important''))
     = [str ''Amazing'', str ''grace'']"
    unfolding important_amazingGrace by (simp add: tok_def)
  moreover have "generateQuizLyrics amazingGrace
        (selectBlanks rnd (extractWords amazingGrace) 2 (str ''important''))
     = str ''_____0_____ _____1_____ how sweet the sound'' @ [10]"
    unfolding important_amazingGrace by (rule quiz_amazingGrace)
  moreover have "blankIds (generateQuizLyrics amazingGrace
        (selectBlanks rnd (extractWords amazingGrace) 2 (str ''important''))) = [0, 1]"
    unfolding important_amazingGrace quiz_amazingGrace by (rule blankIds_amazingGrace)
  moreover have "selectBlanks rnd T cnt (str ''important'')
     = (if T = [] then [] else jsSort byLinePosition (slice0 (jsSort byLength T) cnt))"
    by (simp add: selectBlanks_def)
  moreover have "sorted (map (\<lambda>t. - int (length_tok t)) (jsSort byLength T))"
    by (simp add: jsSort_byLength)
  moreover have
    "filter (\<lambda>t. length_tok t = k) (jsSort byLength T) = filter (\<lambda>t. length_tok t = k) T"
    using sort_key_stable [of "\<lambda>t. - int (length_tok t)" "- int k" T]
    by (simp add: jsSort_byLength)
  ultimately show ?thesis by blast
qed

theorem important_scenario_witness:
  "map word (selectBlanks alternatingSource (extractWords amazingGrace) 2 (str ''important''))
     = [str ''Amazing'', str ''grace'']
   \<and> filter (\<lambda>t. length_tok t = 5) (jsSort byLength (extractWords amazingGrace))
     = [tok ''grace'' 0 8, tok ''sweet'' 0 18, tok ''sound'' 0 28]"
  using important_scenario [of alternatingSource "extractWords amazingGrace" 0 5]
  unfolding extractWords_amazingGrace by (simp add: tok_def)

section \<open>Properties of the encoder\<close>

lemma splitOn_nonempty: "splitOn sep s \<noteq> []"
  by (induction s) (auto simp: Let_def)

lemma splitOn_no_sep: "l \<in> set (splitOn sep s) \<Longrightarrow> sep \<notin> set l"
proof (induction s arbitrary: l)
  case Nil
  then show ?case by simp
next
  case (Cons c cs)
  show ?case
  proof (cases "c = sep")
    case True
    with Cons show ?thesis by auto
  next
    case False
    obtain r rs where r: "splitOn sep cs = r # rs"
      using splitOn_nonempty [of sep cs] by (cases "splitOn sep cs") auto
    with False Cons.prems have "l = c # r \<or> l \<in> set rs" by (simp add: Let_def)
    with False r Cons.IH show ?thesis by auto
  qed
qed

lemma splitOn_plain: "sep \<notin> set l \<Longrightarrow> splitOn sep l = [l]"
  by (induction l) (auto simp: Let_def)

lemma splitOn_append_sep:
  "sep \<notin> set l \<Longrightarrow> splitOn sep (l @ sep # rest) = l # splitOn sep rest"
  by (induction l) (auto simp: Let_def)

lemma splitOn_joinWith:
  "ls \<noteq> [] \<Longrightarrow> \<forall>l\<in>set ls. sep \<notin> set l \<Longrightarrow> splitOn sep (joinWith sep ls) = ls"
proof (induction sep ls rule: joinWith.induct)
  case (1 sep)
  then show ?case by simp
next
  case (2 sep l)
  then show ?case by (simp add: splitOn_plain)
next
  case (3 sep l m ls)
  then show ?case by (simp add: splitOn_append_sep)
qed

lemma joinWith_splitOn: "joinWith sep (splitOn sep s) = s"
proof (induction s)
  case Nil
  then show ?case by simp
next
  case (Cons c cs)
  obtain r rs where r: "splitOn sep cs = r # rs"
    using splitOn_nonempty [of sep cs] by (cases "splitOn sep cs") auto
  with Cons show ?case by (cases rs) (auto simp: Let_def)
qed

lemma decimal_digits: "c \<in> set (decimal n) \<Longrightarrow> 48 \<le> c \<and> c \<le> 57"
proof (induction n arbitrary: c rule: decimal.induct)
  case (1 n)
  show ?case
  proof (cases "n < 10")
    case True
    with "1.prems" show ?thesis by (simp add: decimal.simps [of n])
  next
    case False
    with "1.prems" have "c \<in> set (decimal (n div 10)) \<or> c = 48 + n mod 10"
      by (auto simp: decimal.simps [of n])
    with "1.IH" [OF False] show ?thesis by auto
  qed
qed

lemma placeholder_no_newline: "10 \<notin> set (placeholder i)"
  using decimal_digits [of 10 i] by (auto simp: placeholder_def str_def)

lemma replaceBlank_no_newline: "10 \<notin> set line \<Longrightarrow> 10 \<notin> set (replaceBlank b line)"
  using placeholder_no_newline [of "blankId b"]
  by (auto simp: replaceBlank_def Let_def dest: in_set_takeD in_set_dropD)

lemma fold_replaceBlank_no_newline:
  "10 \<notin> set line \<Longrightarrow> 10 \<notin> set (fold replaceBlank bs line)"
  by (induction bs arbitrary: line) (auto simp: replaceBlank_no_newline)

lemma quizLine_no_newline: "10 \<notin> set line \<Longrightarrow> 10 \<notin> set (quizLine m (i, line))"
  by (auto simp: quizLine_def Let_def fold_replaceBlank_no_newline split: option.splits)

lemma splitOn_generateQuizLyrics:
  "splitOn 10 (generateQuizLyrics lyrics blanks) = quizLines lyrics blanks"
proof -
  have "length (quizLines lyrics blanks) = length (splitOn 10 lyrics)"
    by (simp add: quizLines_def)
  with splitOn_nonempty [of 10 lyrics] have "quizLines lyrics blanks \<noteq> []"
    by auto
  moreover have "\<forall>l\<in>set (quizLines lyrics blanks). 10 \<notin> set l"
  proof
    fix l
    assume "l \<in> set (quizLines lyrics blanks)"
    then obtain i where i: "i < length (splitOn 10 lyrics)"
      and l: "l = quizLine (groupByLine blanks) (i, splitOn 10 lyrics ! i)"
      by (auto simp: quizLines_def in_set_enumerate_eq)
    from i have "splitOn 10 lyrics ! i \<in> set (splitOn 10 lyrics)" by (rule nth_mem)
    then have "10 \<notin> set (splitOn 10 lyrics ! i)" by (rule splitOn_no_sep)
    then show "10 \<notin> set l" unfolding l by (rule quizLine_no_newline)
  qed
  ultimately show ?thesis
    unfolding generateQuizLyrics_def by (rule splitOn_joinWith)
qed

text \<open>
  C10. The encoder keeps the line structure: split on the newline, its output has as many
  lines as its input, for every text and every list of blanks.
\<close>

theorem generateQuizLyrics_line_count:
  "length (splitOn 10 (generateQuizLyrics lyrics blanks)) = length (splitOn 10 lyrics)"
  by (simp add: splitOn_generateQuizLyrics quizLines_def)

theorem generateQuizLyrics_line_count_witness:
  "length (splitOn 10 (str ''_____0_____ _____1_____ how sweet the sound'' @ [10])) = 2
   \<and> length (splitOn 10 amazingGrace) = 2"
proof -
  have "length (splitOn 10 amazingGrace) = 2"
    by (simp add: amazingGrace_def str_def)
  with generateQuizLyrics_line_count
    [of amazingGrace "[tok ''Amazing'' 0 0, tok ''grace'' 0 8]"]
  show ?thesis unfolding quiz_amazingGrace by simp
qed

lemma lineIndex_withBlankId [simp]: "lineIndex (withBlankId t k) = lineIndex t"
  and position_withBlankId [simp]: "position (withBlankId t k) = position t"
  and word_withBlankId [simp]: "word (withBlankId t k) = word t"
  and blankId_withBlankId [simp]: "blankId (withBlankId t k) = k"
  by (simp_all add: withBlankId_def)

lemma pushBlank_apply:
  "pushBlank x m i =
     (if lineIndex (fst x) = i
      then Some ((case m i of None \<Rightarrow> [] | Some bs \<Rightarrow> bs) @ [withBlankId (fst x) (snd x)])
      else m i)"
  by (auto simp: pushBlank_def Let_def)

lemma fold_pushBlank:
  "fold pushBlank xs m i =
     (let bs = filter (\<lambda>b. lineIndex b = i) (map (\<lambda>bi. withBlankId (fst bi) (snd bi)) xs) in
      case m i of
        None \<Rightarrow> if bs = [] then None else Some bs
      | Some old \<Rightarrow> Some (old @ bs))"
proof (induction xs arbitrary: m)
  case Nil
  then show ?case by (simp split: option.splits)
next
  case (Cons x xs)
  let ?ann = "\<lambda>ys. filter (\<lambda>b. lineIndex b = i) (map (\<lambda>bi. withBlankId (fst bi) (snd bi)) ys)"
  have "fold pushBlank (x # xs) m i = fold pushBlank xs (pushBlank x m) i" by simp
  also have "\<dots> = (let bs = ?ann xs in
      case pushBlank x m i of
        None \<Rightarrow> if bs = [] then None else Some bs
      | Some old \<Rightarrow> Some (old @ bs))"
    by (rule Cons.IH)
  also have "\<dots> = (let bs = ?ann (x # xs) in
      case m i of
        None \<Rightarrow> if bs = [] then None else Some bs
      | Some old \<Rightarrow> Some (old @ bs))"
    by (simp add: pushBlank_apply Let_def split: option.splits)
  finally show ?case .
qed

lemma groupByLine_eq:
  "groupByLine blanks i = (if blanksOfLine blanks i = [] then None else Some (blanksOfLine blanks i))"
  by (simp add: groupByLine_def fold_pushBlank blanksOfLine_def annotate_def Let_def)

lemma jsSort_Nil [simp]: "jsSort cmp [] = []"
  by (simp add: jsSort_def)

lemma quizLine_groupByLine:
  "quizLine (groupByLine blanks) (i, line) =
     fold replaceBlank (jsSort byPositionDesc (blanksOfLine blanks i)) line"
  by (simp add: quizLine_def groupByLine_eq Let_def)

lemma quizLines_nth:
  "i < length (splitOn 10 lyrics) \<Longrightarrow>
   quizLines lyrics blanks ! i =
     fold replaceBlank (jsSort byPositionDesc (blanksOfLine blanks i)) (splitOn 10 lyrics ! i)"
  by (simp add: quizLines_def nth_enumerate_eq quizLine_groupByLine)

lemma sorted_wrt_sym_insertBy:
  assumes sym: "\<And>a b. R a b \<Longrightarrow> R b a"
  shows "sorted_wrt R ys \<Longrightarrow> \<forall>y\<in>set ys. R x y \<Longrightarrow> sorted_wrt R (insertBy cmp x ys)"
  by (induction ys) (auto simp: set_insertBy dest: sym)

lemma sorted_wrt_sym_jsSort:
  assumes sym: "\<And>a b. R a b \<Longrightarrow> R b a"
  shows "sorted_wrt R xs \<Longrightarrow> sorted_wrt R (jsSort cmp xs)"
proof (induction xs)
  case Nil
  then show ?case by simp
next
  case (Cons x xs)
  then have "sorted_wrt R (jsSort cmp xs)" and "\<forall>y\<in>set (jsSort cmp xs). R x y"
    using mset_jsSort [of cmp xs] by (auto dest: mset_eq_setD)
  then have "sorted_wrt R (insertBy cmp x (jsSort cmp xs))"
    using sym by (intro sorted_wrt_sym_insertBy) auto
  then show ?case by (simp add: jsSort_def)
qed

lemma sorted_jsSort_byPositionDesc:
  "sorted_wrt (\<lambda>a b. position b \<le> position a) (jsSort byPositionDesc bs)"
  by (rule sorted_wrt_jsSort) (auto simp: byPositionDesc_def)

lemma sorted_wrt_conj:
  "sorted_wrt P xs \<Longrightarrow> sorted_wrt Q xs \<Longrightarrow> sorted_wrt (\<lambda>a b. P a b \<and> Q a b) xs"
  by (induction xs) auto

lemma length_replaceBlank:
  "position b + length (word b) \<le> length line \<Longrightarrow>
   length (replaceBlank b line) + length (word b) = length line + length (placeholder (blankId b))"
  by (simp add: replaceBlank_def Let_def)

lemma length_fold_replaceBlank:
  assumes "sorted_wrt (\<lambda>a b. position b \<le> position a \<and> apart a b) ds"
    and "\<forall>b\<in>set ds. position b + length (word b) \<le> length line"
  shows "length (fold replaceBlank ds line) + sum_list (map (\<lambda>b. length (word b)) ds)
         = length line + sum_list (map (\<lambda>b. length (placeholder (blankId b))) ds)"
  using assms
proof (induction ds arbitrary: line)
  case Nil
  then show ?case by simp
next
  case (Cons d ds)
  from Cons.prems have d: "position d + length (word d) \<le> length line" by simp
  have len: "length (replaceBlank d line) + length (word d)
      = length line + length (placeholder (blankId d))"
    using d by (rule length_replaceBlank)
  have inside: "\<forall>b\<in>set ds. position b + length (word b) \<le> length (replaceBlank d line)"
  proof
    fix b
    assume b: "b \<in> set ds"
    with Cons.prems have le: "position b \<le> position d" and ap: "apart d b"
      and bl: "position b + length (word b) \<le> length line" by auto
    from ap show "position b + length (word b) \<le> length (replaceBlank d line)"
      unfolding apart_def using le bl len d by auto
  qed
  from Cons.prems have "sorted_wrt (\<lambda>a b. position b \<le> position a \<and> apart a b) ds" by simp
  from Cons.IH [OF this inside] len show ?case by simp
qed

lemma in_annotate:
  "b \<in> set (annotate blanks) \<Longrightarrow>
     \<exists>t k. t \<in> set blanks \<and> k < length blanks \<and> blanks ! k = t \<and> b = withBlankId t k"
proof -
  assume "b \<in> set (annotate blanks)"
  then obtain n where "n < length blanks" and "b = withBlankId (blanks ! n) n"
    by (auto simp: annotate_def in_set_zip)
  then show ?thesis using nth_mem [of n blanks] by blast
qed

lemma sorted_wrt_annotate:
  "sorted_wrt (\<lambda>a b. R (lineIndex a) (position a) (word a) (lineIndex b) (position b) (word b)) blanks
   \<Longrightarrow> sorted_wrt (\<lambda>a b. R (lineIndex a) (position a) (word a) (lineIndex b) (position b) (word b))
         (annotate blanks)"
proof -
  let ?R = "\<lambda>a b. R (lineIndex a) (position a) (word a) (lineIndex b) (position b) (word b)"
  assume "sorted_wrt ?R blanks"
  then have "sorted_wrt ?R (map fst (zip blanks [0..<length blanks]))" by simp
  then have "sorted_wrt (\<lambda>x y. ?R (fst x) (fst y)) (zip blanks [0..<length blanks])"
    by (simp only: sorted_wrt_map)
  then show ?thesis by (simp add: annotate_def sorted_wrt_map)
qed

lemma apart_blanksOfLine:
  assumes "nonOverlapping blanks"
  shows "sorted_wrt apart (blanksOfLine blanks i)"
proof -
  let ?R = "\<lambda>(la::nat) (pa::nat) (wa::jsstring) (lb::nat) (pb::nat) (wb::jsstring).
     la = lb \<longrightarrow> pa + length wa \<le> pb \<or> pb + length wb \<le> pa"
  from assms have "sorted_wrt (\<lambda>a b. ?R (lineIndex a) (position a) (word a) (lineIndex b) (position b) (word b)) blanks"
    by (simp add: nonOverlapping_def)
  then have "sorted_wrt (\<lambda>a b. ?R (lineIndex a) (position a) (word a) (lineIndex b) (position b) (word b)) (annotate blanks)"
    by (rule sorted_wrt_annotate)
  then have "sorted_wrt (\<lambda>a b. lineIndex a = lineIndex b \<longrightarrow> apart a b) (blanksOfLine blanks i)"
    unfolding blanksOfLine_def apart_def by (rule sorted_wrt_filter)
  then show ?thesis
    by (rule sorted_wrt_mono_rel [rotated]) (auto simp: blanksOfLine_def)
qed

lemma inside_blanksOfLine:
  assumes "spansInside lines blanks" and "b \<in> set (blanksOfLine blanks i)"
  shows "position b + length (word b) \<le> length (lines ! i)"
proof -
  from assms(2) have "b \<in> set (annotate blanks)" and li: "lineIndex b = i"
    by (auto simp: blanksOfLine_def)
  then obtain t k where t: "t \<in> set blanks" and b: "b = withBlankId t k"
    using in_annotate by blast
  from assms(1) t have "position t + length (word t) \<le> length (lines ! lineIndex t)"
    by (auto simp: spansInside_def list_all_iff)
  with li b show ?thesis by simp
qed

lemma sum_list_mset_cong:
  "mset xs = mset ys \<Longrightarrow> sum_list (map f xs) = sum_list (map (f :: 'a \<Rightarrow> nat) ys)"
  by (metis mset_map sum_mset_sum_list)

lemma decimal_nonempty: "decimal n \<noteq> []"
  by (simp add: decimal.simps [of n])

lemma decimal_isDigit: "list_all isDigit (decimal n)"
  using decimal_digits [of _ n] by (auto simp: list_all_iff isDigit_def)

lemma parseInt_snoc: "parseInt (ds @ [d]) = 10 * parseInt ds + (d - 48)"
  by (simp add: parseInt_def)

lemma parseInt_decimal: "parseInt (decimal n) = n"
proof (induction n rule: decimal.induct)
  case (1 n)
  show ?case
  proof (cases "n < 10")
    case True
    then show ?thesis by (simp add: decimal.simps [of n] parseInt_def)
  next
    case False
    with "1.IH" show ?thesis by (simp add: decimal.simps [of n] parseInt_snoc)
  qed
qed

lemma blanksOfLine_empty:
  "\<forall>b\<in>set blanks. lineIndex b \<noteq> i \<Longrightarrow> blanksOfLine blanks i = []"
  by (auto simp: blanksOfLine_def filter_empty_conv dest!: in_annotate)

text \<open>
  C4. For every text and every non-overlapping list of blanks whose spans lie inside
  their lines (position-sorted or not), every line of the encoder's output gives back the
  length of the original line: its length, less the lengths of the placeholders put on
  that line, plus the lengths of the words they replaced, is the original length.
\<close>

theorem quizLine_length_roundtrip:
  assumes "nonOverlapping blanks"
    and "spansInside (splitOn 10 lyrics) blanks"
    and "i < length (splitOn 10 lyrics)"
  shows "int (length (splitOn 10 (generateQuizLyrics lyrics blanks) ! i))
           - int (sum_list (map (\<lambda>b. length (placeholder (blankId b))) (blanksOfLine blanks i)))
           + int (sum_list (map (\<lambda>b. length (word b)) (blanksOfLine blanks i)))
         = int (length (splitOn 10 lyrics ! i))"
proof -
  let ?bs = "blanksOfLine blanks i"
  let ?ds = "jsSort byPositionDesc ?bs"
  let ?line = "splitOn 10 lyrics ! i"
  have ms: "mset ?ds = mset ?bs" by (rule mset_jsSort)
  have "sorted_wrt apart ?ds"
    using apart_blanksOfLine [OF assms(1)]
    by (rule sorted_wrt_sym_jsSort [rotated]) (auto simp: apart_def)
  with sorted_jsSort_byPositionDesc [of ?bs]
  have srt: "sorted_wrt (\<lambda>a b. position b \<le> position a \<and> apart a b) ?ds"
    by (rule sorted_wrt_conj)
  have ins: "\<forall>b\<in>set ?ds. position b + length (word b) \<le> length ?line"
    using inside_blanksOfLine [OF assms(2)] mset_eq_setD [OF ms] by auto
  have out: "splitOn 10 (generateQuizLyrics lyrics blanks) ! i = fold replaceBlank ?ds ?line"
    using assms(3) by (simp add: splitOn_generateQuizLyrics quizLines_nth)
  from length_fold_replaceBlank [OF srt ins]
  have "length (fold replaceBlank ?ds ?line) + sum_list (map (\<lambda>b. length (word b)) ?bs)
         = length ?line + sum_list (map (\<lambda>b. length (placeholder (blankId b))) ?bs)"
    by (simp only: sum_list_mset_cong [OF ms])
  then show ?thesis unfolding out by linarith
qed

theorem quizLine_length_roundtrip_witness:
  "nonOverlapping [tok ''Amazing'' 0 0, tok ''grace'' 0 8]
   \<and> spansInside (splitOn 10 amazingGrace) [tok ''Amazing'' 0 0, tok ''grace'' 0 8]
   \<and> int (length (str ''_____0_____ _____1_____ how sweet the sound'')) - 22 + 12
       = int (length (str ''Amazing grace how sweet the sound''))"
proof -
  let ?B = "[tok ''Amazing'' 0 0, tok ''grace'' 0 8]"
  have sp: "splitOn 10 amazingGrace = [str ''Amazing grace how sweet the sound'', []]"
    by (simp add: amazingGrace_def str_def)
  have out: "splitOn 10 (str ''_____0_____ _____1_____ how sweet the sound'' @ [10])
      = [str ''_____0_____ _____1_____ how sweet the sound'', []]"
    by (simp add: str_def)
  have h1: "nonOverlapping ?B" by (simp add: nonOverlapping_def tok_def str_def)
  have h2: "spansInside (splitOn 10 amazingGrace) ?B"
    unfolding sp by (simp add: spansInside_def tok_def str_def)
  have h3: "0 < length (splitOn 10 amazingGrace)" unfolding sp by simp
  have ph: "sum_list (map (\<lambda>b. length (placeholder (blankId b))) (blanksOfLine ?B 0)) = 22"
    by (simp add: blanksOfLine_def annotate_def withBlankId_def tok_def placeholder_def
        decimal.simps str_def upt_rec)
  have ws: "sum_list (map (\<lambda>b. length (word b)) (blanksOfLine ?B 0)) = 12"
    by (simp add: blanksOfLine_def annotate_def withBlankId_def tok_def str_def upt_rec)
  from quizLine_length_roundtrip [OF h1 h2 h3]
  have "int (length (str ''_____0_____ _____1_____ how sweet the sound'')) - 22 + 12
       = int (length (str ''Amazing grace how sweet the sound''))"
    unfolding quiz_amazingGrace out sp ph ws by simp
  with h1 h2 show ?thesis by blast
qed

text \<open>
  C5. For every text and every blank list (position-sorted or not) the encoder's result
  is its per-line results joined with the newline, one per line of the text. The result
  for a line is that line with its blanks replaced one after the other, in an order that
  is descending by position; a replacement puts five underscores, the decimal digits of
  the blank's id and five underscores in place of the span from \<open>position\<close> to
  \<open>position + word.length\<close>. A line with no blank is returned as it is.
\<close>

theorem generateQuizLyrics_meets_spec:
  "generateQuizLyrics lyrics blanks = joinWith 10 (quizLines lyrics blanks)
   \<and> splitOn 10 (generateQuizLyrics lyrics blanks) = quizLines lyrics blanks
   \<and> length (quizLines lyrics blanks) = length (splitOn 10 lyrics)
   \<and> (\<forall>i<length (splitOn 10 lyrics).
         \<exists>ds. mset ds = mset (blanksOfLine blanks i)
            \<and> sorted_wrt (\<lambda>a b. position b \<le> position a) ds
            \<and> quizLines lyrics blanks ! i = fold replaceBlank ds (splitOn 10 lyrics ! i))
   \<and> (\<forall>i<length (splitOn 10 lyrics).
         (\<forall>b\<in>set blanks. lineIndex b \<noteq> i)
         \<longrightarrow> quizLines lyrics blanks ! i = splitOn 10 lyrics ! i)
   \<and> replaceBlank b line =
         take (position b) line @ replicate 5 95 @ decimal (blankId b) @ replicate 5 95
           @ drop (position b + length (word b)) line
   \<and> decimal n \<noteq> [] \<and> list_all isDigit (decimal n) \<and> parseInt (decimal n) = n"
proof -
  have desc: "\<forall>i<length (splitOn 10 lyrics).
         \<exists>ds. mset ds = mset (blanksOfLine blanks i)
            \<and> sorted_wrt (\<lambda>a b. position b \<le> position a) ds
            \<and> quizLines lyrics blanks ! i = fold replaceBlank ds (splitOn 10 lyrics ! i)"
  proof (intro allI impI)
    fix i
    assume "i < length (splitOn 10 lyrics)"
    then have "quizLines lyrics blanks ! i =
        fold replaceBlank (jsSort byPositionDesc (blanksOfLine blanks i)) (splitOn 10 lyrics ! i)"
      by (rule quizLines_nth)
    with mset_jsSort [of byPositionDesc "blanksOfLine blanks i"]
      sorted_jsSort_byPositionDesc [of "blanksOfLine blanks i"]
    show "\<exists>ds. mset ds = mset (blanksOfLine blanks i)
            \<and> sorted_wrt (\<lambda>a b. position b \<le> position a) ds
            \<and> quizLines lyrics blanks ! i = fold replaceBlank ds (splitOn 10 lyrics ! i)"
      by blast
  qed
  have same: "\<forall>i<length (splitOn 10 lyrics).
         (\<forall>b\<in>set blanks. lineIndex b \<noteq> i)
         \<longrightarrow> quizLines lyrics blanks ! i = splitOn 10 lyrics ! i"
    by (simp add: quizLines_nth blanksOfLine_empty)
  have rep: "replaceBlank b line =
         take (position b) line @ replicate 5 95 @ decimal (blankId b) @ replicate 5 95
           @ drop (position b + length (word b)) line"
    by (simp add: replaceBlank_def placeholder_def str_def Let_def numeral_eq_Suc)
  have len: "length (quizLines lyrics blanks) = length (splitOn 10 lyrics)"
    by (simp add: quizLines_def)
  from desc same rep len show ?thesis
    by (simp only: generateQuizLyrics_def splitOn_joinWith splitOn_generateQuizLyrics [unfolded generateQuizLyrics_def]
        decimal_nonempty decimal_isDigit parseInt_decimal simp_thms)
qed

theorem generateQuizLyrics_meets_spec_witness:
  "quizLines amazingGrace [tok ''Amazing'' 0 0, tok ''grace'' 0 8] ! 1 = []
   \<and> replaceBlank (withBlankId (tok ''grace'' 0 8) 1) (str ''Amazing grace'')
       = str ''Amazing _____1_____''
   \<and> parseInt (decimal 120) = 120"
proof -
  let ?B = "[tok ''Amazing'' 0 0, tok ''grace'' 0 8]"
  let ?b = "withBlankId (tok ''grace'' 0 8) 1"
  note spec = generateQuizLyrics_meets_spec [of amazingGrace ?B ?b "str ''Amazing grace''" 120]
  have sp: "splitOn 10 amazingGrace = [str ''Amazing grace how sweet the sound'', []]"
    by (simp add: amazingGrace_def str_def)
  from spec have "\<forall>i<length (splitOn 10 amazingGrace).
         (\<forall>b\<in>set ?B. lineIndex b \<noteq> i)
         \<longrightarrow> quizLines amazingGrace ?B ! i = splitOn 10 amazingGrace ! i"
    by blast
  then have "quizLines amazingGrace ?B ! 1 = []"
    unfolding sp by (simp add: tok_def)
  moreover from spec have "replaceBlank ?b (str ''Amazing grace'') =
      take (position ?b) (str ''Amazing grace'') @ replicate 5 95 @ decimal (blankId ?b)
        @ replicate 5 95 @ drop (position ?b + length (word ?b)) (str ''Amazing grace'')"
    by blast
  then have "replaceBlank ?b (str ''Amazing grace'') = str ''Amazing _____1_____''"
    by (simp add: withBlankId_def tok_def str_def decimal.simps numeral_eq_Suc)
  moreover from spec have "parseInt (decimal 120) = 120" by blast
  ultimately show ?thesis by blast
qed

section \<open>Errors\<close>





end
